theory Spec2Isabelle
  imports Main "HOL-Library.Word"
begin

unbundle bit_operations_syntax

section \<open>Machine types and undefined behaviour\<close>

type_synonym u8 = "8 word"
type_synonym u16 = "16 word"
type_synonym u32 = "32 word"
type_synonym u64 = "64 word"

text \<open>
  The C++ operations of \<^verbatim>\<open>layout.hpp\<close> that have no defined result are branches of the
  model: a left shift of a 32-bit operand by 32 or more, and an integer division by zero.
\<close>

datatype error = Shift_Out_Of_Range | Division_By_Zero

section \<open>Cache and page constants\<close>

text \<open>
  \<^verbatim>\<open>CACHE_LINE\<close> is a \<^verbatim>\<open>std::size_t\<close> fixed at build time; the \<^verbatim>\<open>static_assert\<close> of the
  source admits exactly the two values 64 and 128. The build choice is the first argument
  of every function that depends on it.
\<close>

datatype cache_line = Line64 | Line128

fun CACHE_LINE :: "cache_line \<Rightarrow> u64" where
  "CACHE_LINE Line64 = 64"
| "CACHE_LINE Line128 = 128"

definition PAGE_SIZE :: u32 where
  "PAGE_SIZE = 4096"

definition PAGE_SIZE_LOG2 :: u8 where
  "PAGE_SIZE_LOG2 = 12"

definition METADATA_MAGIC :: u64 where
  "METADATA_MAGIC = 0x00024D4853544648"

definition METADATA_VERSION :: u8 where
  "METADATA_VERSION = 2"

section \<open>Power-of-2 helpers\<close>

text \<open>
  \<^verbatim>\<open>uint8_t log2 = 0; while ((1u << log2) < size) ++log2; return log2;\<close>
  The shift \<^verbatim>\<open>1u << log2\<close> is defined only for \<^verbatim>\<open>log2 < 32\<close>; the loop is the recursion
  below, started at 0.
\<close>

function size_to_log2_loop :: "u8 \<Rightarrow> u32 \<Rightarrow> error + u8" where
  "size_to_log2_loop log2 sz =
     (if 32 \<le> unat log2 then Inl Shift_Out_Of_Range
      else if push_bit (unat log2) (1 :: u32) < sz then size_to_log2_loop (log2 + 1) sz
      else Inr log2)"
  by pat_completeness auto
termination
proof (relation "measure (\<lambda>(log2, sz). 32 - unat log2)")
  show "wf (measure (\<lambda>(log2 :: u8, sz :: u32). 32 - unat log2))"
    by simp
next
  fix log2 :: u8 and sz :: u32
  assume "\<not> 32 \<le> unat log2"
  then have "unat (log2 + 1) = unat log2 + 1"
    by (simp add: unat_word_ariths)
  with \<open>\<not> 32 \<le> unat log2\<close>
  show "((log2 + 1, sz), (log2, sz)) \<in> measure (\<lambda>(log2, sz). 32 - unat log2)"
    by simp
qed

definition size_to_log2 :: "u32 \<Rightarrow> error + u8" where
  "size_to_log2 sz = size_to_log2_loop 0 sz"

definition log2_to_size :: "u8 \<Rightarrow> error + u32" where
  "log2_to_size log2 =
     (if 32 \<le> unat log2 then Inl Shift_Out_Of_Range else Inr (push_bit (unat log2) 1))"

definition is_power_of_2 :: "u32 \<Rightarrow> bool" where
  "is_power_of_2 x \<longleftrightarrow> x \<noteq> 0 \<and> \<not> (x AND (x - 1) \<noteq> 0)"

section \<open>Metadata structure (header file layout)\<close>

definition METADATA_FIXED_SIZE :: u64 where
  "METADATA_FIXED_SIZE = 39"

text \<open>
  \<^verbatim>\<open>struct alignas(CACHE_LINE) metadata\<close>: the fixed fields in declaration order, then the
  byte array \<^verbatim>\<open>padding[CACHE_LINE - METADATA_FIXED_SIZE]\<close>.
\<close>

record metadata =
  magic :: u64
  version :: u8
  max_consumers :: u8
  event_size :: u16
  producer_pid :: u32
  buffer_size :: u32
  producer_offset :: u32
  consumer_0_offset :: u32
  header_size :: u32
  index_mask :: u32
  event_size_log2 :: u8
  buffer_size_log2 :: u8
  header_size_log2 :: u8
  padding :: "u8 list"

definition padding_length :: "cache_line \<Rightarrow> nat" where
  "padding_length cl = unat (CACHE_LINE cl - METADATA_FIXED_SIZE)"

section \<open>Metadata accessors\<close>

text \<open>
  \<^verbatim>\<open>return index << meta->event_size_log2;\<close> on \<^verbatim>\<open>uint32_t\<close>: the result keeps the low
  32 bits; a shift count of 32 or more has no defined result.
\<close>

definition event_offset :: "metadata \<Rightarrow> u32 \<Rightarrow> error + u32" where
  "event_offset meta index =
     (if 32 \<le> unat (event_size_log2 meta) then Inl Shift_Out_Of_Range
      else Inr (push_bit (unat (event_size_log2 meta)) index))"

text \<open>\<^verbatim>\<open>return static_cast<uint32_t>(sequence) & meta->index_mask;\<close>\<close>

definition buffer_index :: "metadata \<Rightarrow> u64 \<Rightarrow> u32" where
  "buffer_index meta sequence = (ucast sequence :: u32) AND index_mask meta"

definition validate_sizes :: "metadata \<Rightarrow> bool" where
  "validate_sizes meta =
     (let buffer_ok = is_power_of_2 (buffer_size meta) \<and>
                      index_mask meta = buffer_size meta - 1
      in buffer_ok)"

section \<open>Section layout\<close>

text \<open>
  The arithmetic that involves \<^verbatim>\<open>CACHE_LINE\<close> is done in \<^verbatim>\<open>std::size_t\<close> (64 bits) and
  converted to \<^verbatim>\<open>uint32_t\<close> on initialisation or return; a \<^verbatim>\<open>uint8_t\<close> operand is
  promoted and multiplied with a \<^verbatim>\<open>uint32_t\<close> in 32 bits.
\<close>

definition DEFAULT_PRODUCER_SECTION_SIZE :: "cache_line \<Rightarrow> u32" where
  "DEFAULT_PRODUCER_SECTION_SIZE cl = ucast (2 * CACHE_LINE cl)"

definition DEFAULT_CONSUMER_SECTION_SIZE :: "cache_line \<Rightarrow> u32" where
  "DEFAULT_CONSUMER_SECTION_SIZE cl = ucast (2 * CACHE_LINE cl)"

definition default_producer_offset :: "cache_line \<Rightarrow> u32" where
  "default_producer_offset cl = ucast (CACHE_LINE cl)"

definition default_consumer_0_offset :: "cache_line \<Rightarrow> u32 \<Rightarrow> u32" where
  "default_consumer_0_offset cl producer_section_sz =
     ucast (CACHE_LINE cl + ucast producer_section_sz)"

definition raw_header_size :: "cache_line \<Rightarrow> u8 \<Rightarrow> u32 \<Rightarrow> u32 \<Rightarrow> u32" where
  "raw_header_size cl max_cons producer_section_sz consumer_section_sz =
     ucast (CACHE_LINE cl + ucast producer_section_sz
            + ucast ((ucast max_cons :: u32) * consumer_section_sz))"

definition header_segment_size :: "cache_line \<Rightarrow> u8 \<Rightarrow> u32 \<Rightarrow> u32 \<Rightarrow> u32" where
  "header_segment_size cl max_cons producer_section_sz consumer_section_sz =
     (let raw = raw_header_size cl max_cons producer_section_sz consumer_section_sz
      in ((raw + PAGE_SIZE - 1) div PAGE_SIZE) * PAGE_SIZE)"

section \<open>Metadata operations\<close>

text \<open>
  \<^verbatim>\<open>metadata_init\<close> writes through \<^verbatim>\<open>ptr\<close>: the model takes the record found there and
  returns the record left there. The function has no check and no failure path of its
  own; the only way it does not complete is an undefined shift inside \<^verbatim>\<open>size_to_log2\<close>.
  The three calls happen in the order event, buffer, header.
\<close>

definition metadata_init ::
  "cache_line \<Rightarrow> metadata \<Rightarrow> u8 \<Rightarrow> u16 \<Rightarrow> u32 \<Rightarrow> u32 \<Rightarrow> u32 \<Rightarrow> u32 \<Rightarrow> error + metadata" where
  "metadata_init cl meta max_cons event_sz buffer_sz producer_off consumer_0_off header_sz =
     (case (if event_sz \<noteq> 0 then size_to_log2 (ucast event_sz) else Inr 0) of
        Inl e \<Rightarrow> Inl e
      | Inr esl \<Rightarrow>
     (case size_to_log2 buffer_sz of
        Inl e \<Rightarrow> Inl e
      | Inr bsl \<Rightarrow>
     (case size_to_log2 header_sz of
        Inl e \<Rightarrow> Inl e
      | Inr hsl \<Rightarrow>
          Inr (meta\<lparr>magic := METADATA_MAGIC,
                    version := METADATA_VERSION,
                    max_consumers := max_cons,
                    event_size := event_sz,
                    producer_pid := 0,
                    buffer_size := buffer_sz,
                    producer_offset := producer_off,
                    consumer_0_offset := consumer_0_off,
                    header_size := header_sz,
                    index_mask := buffer_sz - 1,
                    event_size_log2 := esl,
                    buffer_size_log2 := bsl,
                    header_size_log2 := hsl,
                    padding := replicate (padding_length cl) 0\<rparr>))))"

text \<open>
  The record read from a header segment that was created and sized but never written:
  every byte is 0.
\<close>

definition zero_filled :: "cache_line \<Rightarrow> metadata" where
  "zero_filled cl =
     \<lparr>magic = 0, version = 0, max_consumers = 0, event_size = 0, producer_pid = 0,
      buffer_size = 0, producer_offset = 0, consumer_0_offset = 0, header_size = 0,
      index_mask = 0, event_size_log2 = 0, buffer_size_log2 = 0, header_size_log2 = 0,
      padding = replicate (padding_length cl) 0\<rparr>"

definition metadata_validate :: "metadata \<Rightarrow> bool" where
  "metadata_validate meta \<longleftrightarrow> magic meta = METADATA_MAGIC \<and> version meta = METADATA_VERSION"

definition producer_section_size :: "metadata \<Rightarrow> u32" where
  "producer_section_size meta = consumer_0_offset meta - producer_offset meta"

text \<open>
  \<^verbatim>\<open>raw_header_size(meta->max_consumers)\<close> takes both default section sizes; the division
  by \<^verbatim>\<open>meta->max_consumers\<close> has no defined result when that field is 0.
\<close>

definition consumer_section_size :: "cache_line \<Rightarrow> metadata \<Rightarrow> error + u32" where
  "consumer_section_size cl meta =
     (let raw_end = raw_header_size cl (max_consumers meta)
                      (DEFAULT_PRODUCER_SECTION_SIZE cl) (DEFAULT_CONSUMER_SECTION_SIZE cl)
      in if max_consumers meta = 0 then Inl Division_By_Zero
         else Inr ((raw_end - consumer_0_offset meta) div ucast (max_consumers meta)))"

definition consumer_offset :: "cache_line \<Rightarrow> metadata \<Rightarrow> u8 \<Rightarrow> error + u32" where
  "consumer_offset cl meta n =
     (case consumer_section_size cl meta of
        Inl e \<Rightarrow> Inl e
      | Inr s \<Rightarrow> Inr (consumer_0_offset meta + ucast n * s))"

section \<open>Data segment size calculation\<close>

definition HUGEPAGE_2MB :: u64 where
  "HUGEPAGE_2MB = 2 * 1024 * 1024"

definition HUGEPAGE_1GB :: u64 where
  "HUGEPAGE_1GB = 1024 * 1024 * 1024"

definition data_segment_size :: "u32 \<Rightarrow> u32 \<Rightarrow> u32" where
  "data_segment_size buffer_sz hugepage_sz =
     (if hugepage_sz = 0 then buffer_sz
      else ((buffer_sz + hugepage_sz - 1) div hugepage_sz) * hugepage_sz)"

section \<open>Platform policy: release operations\<close>

text \<open>
  \<^verbatim>\<open>LinuxShmPolicy\<close> and \<^verbatim>\<open>MacOSShmPolicy\<close> have the same \<^verbatim>\<open>unmap\<close> and \<^verbatim>\<open>close_fd\<close>.
  The operating system is seen through the list of system calls issued so far; each
  operation takes that list and returns it extended by the calls it makes. A pointer is a
  64-bit address, \<^verbatim>\<open>nullptr\<close> is 0 and \<^verbatim>\<open>MAP_FAILED\<close> is \<^verbatim>\<open>(void *) -1\<close>; a descriptor is
  a signed 32-bit \<^verbatim>\<open>int\<close>.
\<close>

datatype syscall = Sys_munmap u64 u64 | Sys_close "32 word"

definition MAP_FAILED :: u64 where
  "MAP_FAILED = - 1"

definition unmap :: "u64 \<Rightarrow> u64 \<Rightarrow> syscall list \<Rightarrow> syscall list" where
  "unmap ptr sz calls =
     (if ptr \<noteq> 0 \<and> ptr \<noteq> MAP_FAILED then calls @ [Sys_munmap ptr sz] else calls)"

definition close_fd :: "32 word \<Rightarrow> syscall list \<Rightarrow> syscall list" where
  "close_fd fd calls = (if 0 \<le> sint fd then calls @ [Sys_close fd] else calls)"

section \<open>Facts about 32-bit words\<close>

lemma unat_u8_of_nat: "n < 256 \<Longrightarrow> unat (of_nat n :: u8) = n"
  by (simp add: unat_of_nat)

lemma unat_two_power_u32: "n < 32 \<Longrightarrow> unat ((2 :: u32) ^ n) = 2 ^ n"
proof -
  assume n: "n < 32"
  have "uint ((2 :: u32) ^ n) = 2 ^ n"
    by (rule uint_2p) (use n in \<open>simp add: word_gt_0\<close>)
  then show ?thesis by (simp add: unat_eq_nat_uint)
qed

lemma unat_push_bit_one_u32: "n < 32 \<Longrightarrow> unat (push_bit n (1 :: u32)) = 2 ^ n"
  by (simp add: unat_two_power_u32 push_bit_eq_mult)

lemma unat_u8_of_nat_small: "k \<le> 31 \<Longrightarrow> unat (of_nat k :: u8) = k"
  by (simp add: unat_u8_of_nat)

lemma mod_2_64_mod_2_32: "(n :: nat) mod 18446744073709551616 mod 4294967296 = n mod 4294967296"
  by (rule mod_mod_cancel) simp

lemma unat_ucast_u64_u32: "unat (ucast (a :: u64) :: u32) = unat a mod 2 ^ 32"
  by (simp add: unsigned_ucast_eq take_bit_eq_mod)

lemma unat_u32_less: "unat (a :: u32) < 4294967296"
  using unsigned_less [of a, where 'a = nat] by simp

lemma unat_ucast_u32_u64: "unat (ucast (a :: u32) :: u64) = unat a"
  using unat_u32_less [of a] by (simp add: unsigned_ucast_eq take_bit_eq_mod)

lemma ucast_down_add: "(ucast (a + b :: u64) :: u32) = ucast a + ucast b"
  by (simp add: word_unat_eq_iff unat_ucast_u64_u32 unat_word_ariths mod_2_64_mod_2_32 mod_simps)

lemma ucast_up_down: "(ucast (ucast (a :: u32) :: u64) :: u32) = a"
  using unat_u32_less [of a]
  by (simp add: word_unat_eq_iff unat_ucast_u64_u32 unat_ucast_u32_u64)

lemma unat_and_mask: "unat ((a :: u32) AND mask k) = unat a mod 2 ^ k"
proof -
  have "unat (a AND mask k) = unat (take_bit k a)"
    by (simp only: take_bit_eq_mask)
  also have "\<dots> = take_bit k (unat a)"
    by (simp only: unsigned_take_bit_eq)
  also have "\<dots> = unat a mod 2 ^ k"
    by (simp only: take_bit_eq_mod)
  finally show ?thesis .
qed

lemma and_mask_add_pow2:
  assumes "k < 32"
  shows "((a :: u32) + 2 ^ k) AND mask k = a AND mask k"
proof -
  have d: "(2::nat) ^ k dvd 2 ^ 32" using assms by (intro le_imp_power_dvd) simp
  have "unat (a + 2 ^ k) = (unat a + 2 ^ k) mod 2 ^ 32"
    using assms by (simp add: unat_word_ariths unat_two_power_u32)
  then have "unat (a + 2 ^ k) mod 2 ^ k = (unat a + 2 ^ k) mod 2 ^ k"
    using mod_mod_cancel [OF d, of "unat a + 2 ^ k"] by simp
  then have "unat ((a + 2 ^ k) AND mask k) = unat (a AND mask k)"
    by (simp add: unat_and_mask)
  then show ?thesis by (simp only: word_unat_eq_iff)
qed

section \<open>The loop of \<^verbatim>\<open>size_to_log2\<close>\<close>

declare size_to_log2_loop.simps [simp del]

lemma size_to_log2_loop_step:
  assumes "n < 32"
  shows "size_to_log2_loop (of_nat n) x =
           (if 2 ^ n < unat x then size_to_log2_loop (of_nat (Suc n)) x else Inr (of_nat n))"
proof -
  have u: "unat (of_nat n :: u8) = n" using assms by (simp add: unat_u8_of_nat)
  have p: "push_bit n (1 :: u32) < x \<longleftrightarrow> 2 ^ n < unat x"
    using assms by (simp add: word_less_nat_alt unat_two_power_u32)
  show ?thesis
    using assms u p by (subst size_to_log2_loop.simps) (simp add: add.commute)
qed

lemma size_to_log2_loop_exit:
  assumes "n \<le> L" "L < 32" "unat x \<le> 2 ^ L" "\<forall>k<L. 2 ^ k < unat x"
  shows "size_to_log2_loop (of_nat n) x = Inr (of_nat L)"
  using assms
proof (induction "L - n" arbitrary: n)
  case 0
  then have "n = L" by simp
  with 0 show ?case by (simp add: size_to_log2_loop_step)
next
  case (Suc d)
  then have "n < L" by simp
  with Suc.prems have "2 ^ n < unat x" by blast
  moreover have "size_to_log2_loop (of_nat (Suc n)) x = Inr (of_nat L)"
    using Suc by (intro Suc.hyps(1)) auto
  ultimately show ?case
    using Suc.prems \<open>n < L\<close> by (simp add: size_to_log2_loop_step)
qed

lemma size_to_log2_loop_undefined:
  assumes "n \<le> 32" "2 ^ 31 < unat x"
  shows "size_to_log2_loop (of_nat n) x = Inl Shift_Out_Of_Range"
  using assms
proof (induction "32 - n" arbitrary: n)
  case 0
  then have "n = 32" by simp
  then show ?case by (subst size_to_log2_loop.simps) simp
next
  case (Suc d)
  then have n: "n < 32" by simp
  then have "(2::nat) ^ n \<le> 2 ^ 31" by (intro power_increasing) auto
  with Suc.prems have "2 ^ n < unat x" by simp
  moreover have "size_to_log2_loop (of_nat (Suc n)) x = Inl Shift_Out_Of_Range"
    using Suc by (intro Suc.hyps(1)) auto
  ultimately show ?case using n by (simp add: size_to_log2_loop_step)
qed

lemma least_exp_props:
  fixes m :: nat
  assumes "m \<le> 2 ^ 31"
  defines "L \<equiv> (LEAST e. m \<le> 2 ^ e)"
  shows "L \<le> 31" "m \<le> 2 ^ L" "\<forall>k<L. 2 ^ k < m"
proof -
  show "L \<le> 31" unfolding L_def using assms(1) by (rule Least_le)
  show "m \<le> 2 ^ L" unfolding L_def using assms(1) by (rule LeastI)
  show "\<forall>k<L. 2 ^ k < m"
  proof (intro allI impI)
    fix k assume "k < L"
    then have "\<not> m \<le> 2 ^ k" unfolding L_def by (rule not_less_Least)
    then show "2 ^ k < m" by simp
  qed
qed

lemma size_to_log2_least:
  assumes "unat x \<le> 2 ^ 31"
  shows "size_to_log2 x = Inr (of_nat (LEAST e. unat x \<le> 2 ^ e))"
proof -
  note P = least_exp_props [OF assms]
  have "size_to_log2_loop (of_nat 0) x = Inr (of_nat (LEAST e. unat x \<le> 2 ^ e))"
    using P by (intro size_to_log2_loop_exit) auto
  then show ?thesis by (simp add: size_to_log2_def)
qed

lemma size_to_log2_pow2:
  assumes "k \<le> 31"
  shows "size_to_log2 (2 ^ k) = Inr (of_nat k)"
proof -
  have u: "unat ((2::u32) ^ k) = 2 ^ k" using assms by (simp add: unat_two_power_u32)
  have "size_to_log2_loop (of_nat 0) (2 ^ k) = Inr (of_nat k)"
  proof (rule size_to_log2_loop_exit)
    show "\<forall>j<k. 2 ^ j < unat ((2::u32) ^ k)" by (simp add: u)
  qed (use assms u in auto)
  then show ?thesis by (simp add: size_to_log2_def)
qed

section \<open>Powers of two and \<^verbatim>\<open>x & (x - 1)\<close>\<close>

lemma nat_and_pred_step:
  fixes n :: nat
  assumes "0 < n"
  shows "n AND (n - 1) = 2 * ((n div 2) AND ((n - 1) div 2))"
proof -
  have "\<not> (odd n \<and> odd (n - 1))" using assms by auto
  then show ?thesis by (subst and_rec) simp
qed

lemma nat_and_pred_zero_iff:
  fixes n :: nat
  assumes "0 < n"
  shows "n AND (n - 1) = 0 \<longleftrightarrow> (\<exists>k. n = 2 ^ k)"
  using assms
proof (induction n rule: less_induct)
  case (less n)
  show ?case
  proof (cases "even n")
    case True
    then obtain m where m: "n = 2 * m" by (elim evenE)
    with less.prems have mpos: "0 < m" by simp
    have "(n - 1) div 2 = m - 1" using m mpos by (cases m) simp_all
    then have step: "n AND (n - 1) = 2 * (m AND (m - 1))"
      using nat_and_pred_step [OF less.prems] m by simp
    have ih: "m AND (m - 1) = 0 \<longleftrightarrow> (\<exists>k. m = 2 ^ k)"
      using less.IH [of m] m mpos by simp
    have "(\<exists>k. m = 2 ^ k) \<longleftrightarrow> (\<exists>k. n = 2 ^ k)"
    proof
      assume "\<exists>k. m = 2 ^ k"
      then obtain k where "m = 2 ^ k" ..
      then have "n = 2 ^ Suc k" using m by simp
      then show "\<exists>k. n = 2 ^ k" ..
    next
      assume "\<exists>k. n = 2 ^ k"
      then obtain k where k: "n = 2 ^ k" ..
      with True have "k \<noteq> 0" by (cases k) auto
      then obtain j where "k = Suc j" by (cases k) auto
      with k m have "m = 2 ^ j" by simp
      then show "\<exists>k. m = 2 ^ k" ..
    qed
    with step ih show ?thesis by simp
  next
    case False
    then obtain m where m: "n = 2 * m + 1" by (elim oddE)
    have "n AND (n - 1) = 2 * m"
      using nat_and_pred_step [OF less.prems] m by simp
    moreover have "(\<exists>k. n = 2 ^ k) \<longleftrightarrow> m = 0"
    proof
      assume "\<exists>k. n = 2 ^ k"
      then obtain k where k: "n = 2 ^ k" ..
      with False have "k = 0" by (cases k) auto
      with k m show "m = 0" by simp
    next
      assume "m = 0"
      with m have "n = 2 ^ 0" by simp
      then show "\<exists>k. n = 2 ^ k" ..
    qed
    ultimately show ?thesis by simp
  qed
qed

lemma is_power_of_2_unat:
  "is_power_of_2 x \<longleftrightarrow> (\<exists>k. unat x = 2 ^ k)"
proof (cases "x = 0")
  case True
  then show ?thesis by (simp add: is_power_of_2_def)
next
  case False
  then have pos: "0 < unat x" by (simp add: unat_gt_0)
  have "x AND (x - 1) = 0 \<longleftrightarrow> unat (x AND (x - 1)) = 0"
    by (simp add: unat_eq_0)
  also have "\<dots> \<longleftrightarrow> unat x AND (unat x - 1) = 0"
    using False by (simp add: unsigned_and_eq unat_minus_one)
  also have "\<dots> \<longleftrightarrow> (\<exists>k. unat x = 2 ^ k)"
    by (rule nat_and_pred_zero_iff [OF pos])
  finally show ?thesis using False by (simp add: is_power_of_2_def)
qed

lemma is_power_of_2_iff:
  "is_power_of_2 x \<longleftrightarrow> (\<exists>k<32. x = 2 ^ k)"
proof
  assume "is_power_of_2 x"
  then obtain k where k: "unat x = 2 ^ k" by (auto simp: is_power_of_2_unat)
  have "unat x < 2 ^ LENGTH(32)" by (rule unsigned_less)
  with k have "(2::nat) ^ k < 2 ^ 32" by simp
  then have "k < 32" by (rule power_less_imp_less_exp [of 2, rotated]) simp
  moreover from this k have "unat x = unat ((2 :: u32) ^ k)"
    by (simp add: unat_two_power_u32)
  then have "x = 2 ^ k" by (simp only: word_unat_eq_iff)
  ultimately show "\<exists>k<32. x = 2 ^ k" by blast
next
  assume "\<exists>k<32. x = 2 ^ k"
  then obtain k where "k < 32" "x = 2 ^ k" by blast
  then have "unat x = 2 ^ k" by (simp add: unat_two_power_u32)
  then show "is_power_of_2 x" by (auto simp: is_power_of_2_unat)
qed

section \<open>Geometry library: powers of two\<close>

text \<open>
  C6. For every 32-bit \<open>x\<close>, \<^verbatim>\<open>is_power_of_2(x)\<close> is true exactly when the value of \<open>x\<close>
  is \<open>2 ^ k\<close> for some \<open>k \<ge> 0\<close>; and for every \<open>k\<close> from 0 to 31,
  \<^verbatim>\<open>size_to_log2(2^k)\<close> returns \<open>k\<close>.
\<close>

theorem is_power_of_2_iff_exact_power:
  "(is_power_of_2 x \<longleftrightarrow> (\<exists>k. unat x = 2 ^ k)) \<and>
   (k \<le> 31 \<longrightarrow> size_to_log2 (2 ^ k) = Inr (of_nat k) \<and> unat (of_nat k :: u8) = k)"
  by (simp add: is_power_of_2_unat size_to_log2_pow2 unat_u8_of_nat_small)

theorem is_power_of_2_iff_exact_power_witness:
  "(10 :: nat) \<le> 31 \<and> size_to_log2 (2 ^ 10) = Inr 10 \<and> is_power_of_2 (2 ^ 10) \<and>
   \<not> is_power_of_2 0"
proof -
  have "\<exists>k. unat ((2 :: u32) ^ 10) = 2 ^ k"
    by (rule exI [of _ 10]) simp
  moreover have "\<not> (\<exists>k. unat (0 :: u32) = 2 ^ k)" by simp
  ultimately show ?thesis
    using is_power_of_2_iff_exact_power [of "2 ^ 10" 10]
      is_power_of_2_iff_exact_power [of 0 10]
    by simp
qed

text \<open>
  C10. For every \<open>x\<close> with \<open>1 \<le> x \<le> 2 ^ 31\<close> the loop of \<^verbatim>\<open>size_to_log2\<close> ends and
  returns the least \<open>e\<close> with \<open>x \<le> 2 ^ e\<close>; \<^verbatim>\<open>size_to_log2(0)\<close> returns 0; for
  \<open>y > 2 ^ 31\<close> the loop condition \<^verbatim>\<open>(1u << e) < y\<close> holds for every \<open>e < 32\<close>, so the loop
  reaches the shift by 32 and returns no value.
\<close>

theorem size_to_log2_total_iff_le_2_31:
  "(1 \<le> unat x \<and> unat x \<le> 2 ^ 31 \<longrightarrow>
      (\<exists>e. size_to_log2 x = Inr e \<and> unat e = (LEAST n. unat x \<le> 2 ^ n) \<and>
           unat x \<le> 2 ^ unat e \<and> (\<forall>n<unat e. 2 ^ n < unat x))) \<and>
   size_to_log2 0 = Inr 0 \<and>
   (2 ^ 31 < unat y \<longrightarrow>
      (\<forall>n<32. push_bit n (1 :: u32) < y) \<and> size_to_log2 y = Inl Shift_Out_Of_Range)"
proof (intro conjI impI)
  assume a: "1 \<le> unat x \<and> unat x \<le> 2 ^ 31"
  then have le: "unat x \<le> 2 ^ 31" by simp
  let ?L = "LEAST n. unat x \<le> 2 ^ n"
  note P = least_exp_props [OF le]
  have u: "unat (of_nat ?L :: u8) = ?L"
    using P(1) by (simp add: unat_u8_of_nat_small)
  have "size_to_log2 x = Inr (of_nat ?L)" by (rule size_to_log2_least [OF le])
  with u P show "\<exists>e. size_to_log2 x = Inr e \<and> unat e = ?L \<and>
           unat x \<le> 2 ^ unat e \<and> (\<forall>n<unat e. 2 ^ n < unat x)"
    by auto
next
  have "size_to_log2_loop (of_nat 0) 0 = Inr (of_nat 0)"
    by (rule size_to_log2_loop_exit) simp_all
  then show "size_to_log2 0 = Inr 0" by (simp add: size_to_log2_def)
next
  assume b: "2 ^ 31 < unat y"
  show "\<forall>n<32. push_bit n (1 :: u32) < y"
  proof (intro allI impI)
    fix n :: nat assume n: "n < 32"
    then have "(2::nat) ^ n \<le> 2 ^ 31" by (intro power_increasing) auto
    with b have "2 ^ n < unat y" by simp
    with n show "push_bit n (1 :: u32) < y"
      by (simp add: word_less_nat_alt unat_two_power_u32)
  qed
next
  assume b: "2 ^ 31 < unat y"
  have "size_to_log2_loop (of_nat 0) y = Inl Shift_Out_Of_Range"
    by (rule size_to_log2_loop_undefined [OF _ b]) simp
  then show "size_to_log2 y = Inl Shift_Out_Of_Range" by (simp add: size_to_log2_def)
qed

theorem size_to_log2_total_iff_le_2_31_witness:
  "size_to_log2 5 = Inr 3 \<and> size_to_log2 0 = Inr 0 \<and>
   size_to_log2 0x80000001 = Inl Shift_Out_Of_Range"
proof -
  note T = size_to_log2_total_iff_le_2_31 [of 5 "0x80000001"]
  have h1: "1 \<le> unat (5 :: u32) \<and> unat (5 :: u32) \<le> 2 ^ 31" by simp
  have h2: "2 ^ 31 < unat (0x80000001 :: u32)" by simp
  from T h1 obtain e where e: "size_to_log2 5 = Inr e" "unat (5 :: u32) \<le> 2 ^ unat e"
    "\<forall>n<unat e. 2 ^ n < unat (5 :: u32)" by blast
  have "unat e = 3"
  proof (rule ccontr)
    assume "unat e \<noteq> 3"
    then consider "unat e \<le> 2" | "3 < unat e" by linarith
    then show False
    proof cases
      case 1
      then have "(2::nat) ^ unat e \<le> 2 ^ 2" by (intro power_increasing) auto
      with e(2) show False by simp
    next
      case 2
      with e(3) have "(2::nat) ^ 3 < unat (5 :: u32)" by blast
      then show False by simp
    qed
  qed
  then have "e = 3" by (simp add: word_unat_eq_iff)
  with e(1) T h2 show ?thesis by simp
qed

section \<open>Fast-path accessors\<close>

text \<open>
  C5. For every metadata record whose \<^verbatim>\<open>buffer_size\<close> is a power of two (hence nonzero)
  and whose \<^verbatim>\<open>index_mask\<close> is \<^verbatim>\<open>buffer_size - 1\<close>, and for every 64-bit sequence number,
  \<^verbatim>\<open>buffer_index\<close> is below \<^verbatim>\<open>buffer_size\<close> and is unchanged when \<^verbatim>\<open>buffer_size\<close> is
  added to the sequence number (in 64-bit arithmetic).
\<close>

theorem buffer_index_in_range_and_periodic:
  assumes "unat (buffer_size meta) = 2 ^ k"
    and "index_mask meta = buffer_size meta - 1"
  shows "buffer_index meta s < buffer_size meta \<and>
         buffer_index meta s = buffer_index meta (s + ucast (buffer_size meta))"
proof -
  have "is_power_of_2 (buffer_size meta)"
    using assms(1) by (auto simp: is_power_of_2_unat)
  then obtain j where j: "j < 32" "buffer_size meta = 2 ^ j"
    by (auto simp: is_power_of_2_iff)
  have m: "index_mask meta = mask j"
    using assms(2) j by (simp add: mask_eq_decr_exp)
  have "(ucast s :: u32) AND mask j < 2 ^ j"
    by (rule and_mask_less_size) (use j in \<open>simp add: word_size\<close>)
  moreover have "(ucast (s + ucast ((2 :: u32) ^ j)) :: u32) AND mask j = ucast s AND mask j"
    using j by (simp only: ucast_down_add ucast_up_down and_mask_add_pow2)
  ultimately show ?thesis by (simp add: buffer_index_def m j)
qed

theorem buffer_index_in_range_and_periodic_witness:
  "unat (1024 :: u32) = 2 ^ 10 \<and>
   buffer_index \<lparr>magic = METADATA_MAGIC, version = METADATA_VERSION, max_consumers = 4,
      event_size = 64, producer_pid = 0, buffer_size = 1024, producer_offset = 64,
      consumer_0_offset = 192, header_size = 4096, index_mask = 1023, event_size_log2 = 6,
      buffer_size_log2 = 10, header_size_log2 = 12, padding = []\<rparr> 5000 < 1024"
proof -
  let ?M = "\<lparr>magic = METADATA_MAGIC, version = METADATA_VERSION, max_consumers = 4,
      event_size = 64, producer_pid = 0, buffer_size = 1024, producer_offset = 64,
      consumer_0_offset = 192, header_size = 4096, index_mask = 1023, event_size_log2 = 6,
      buffer_size_log2 = 10, header_size_log2 = 12, padding = []\<rparr>"
  have h1: "unat (buffer_size ?M) = 2 ^ 10" by simp
  have h2: "index_mask ?M = buffer_size ?M - 1" by simp
  have "buffer_index ?M 5000 < buffer_size ?M"
    using buffer_index_in_range_and_periodic [OF h1 h2, of 5000] by (rule conjunct1)
  then show ?thesis by simp
qed

section \<open>Release operations\<close>

text \<open>
  C9. \<^verbatim>\<open>unmap\<close> with a null base address issues no system call, whatever the size, and
  \<^verbatim>\<open>close_fd\<close> with a negative descriptor issues no system call; both return with the
  list of calls unchanged.
\<close>

theorem release_on_invalid_handle_is_noop:
  "unmap 0 sz calls = calls \<and> (sint fd < 0 \<longrightarrow> close_fd fd calls = calls)"
  by (simp add: unmap_def close_fd_def)

theorem release_on_invalid_handle_is_noop_witness:
  "sint (- 1 :: 32 word) < 0 \<and> close_fd (- 1) [] = [] \<and> unmap 0 4096 [] = []"
  using release_on_invalid_handle_is_noop [of 4096 "[]" "- 1"] by simp

section \<open>Rounding up to a multiple\<close>

lemma unat_add_sub_one_u32:
  assumes "h \<noteq> 0"
  shows "unat ((a :: u32) + h - 1) = (unat a + unat h - 1) mod 2 ^ 32"
proof -
  have pos: "1 \<le> unat a + unat h" using assms by (simp add: unat_gt_0 Suc_le_eq)
  have "a + h - 1 = (of_nat (unat a + unat h) :: u32) - of_nat 1" by simp
  also have "\<dots> = of_nat (unat a + unat h - 1)" using pos by (simp only: of_nat_diff)
  finally have "a + h - 1 = (of_nat (unat a + unat h - 1) :: u32)" .
  then have "unat (a + h - 1) = unat (of_nat (unat a + unat h - 1) :: u32)" by simp
  then show ?thesis by (simp only: unat_of_nat) simp
qed

lemma unat_round_up_u32:
  assumes "h \<noteq> 0"
  shows "unat ((((a :: u32) + h - 1) div h) * h) = (unat (a + h - 1) div unat h) * unat h"
proof -
  let ?w = "a + h - 1"
  have "unat (?w div h) * unat h \<le> unat ?w"
    by (simp add: unat_div)
  also have "\<dots> < 2 ^ LENGTH(32)" by (rule unsigned_less)
  finally have "unat (?w div h * h) = unat (?w div h) * unat h"
    by (simp only: unat_mult_lem [symmetric])
  then show ?thesis by (simp add: unat_div)
qed

lemma nat_round_up_ge:
  fixes a h :: nat
  assumes "0 < h"
  shows "a \<le> ((a + h - 1) div h) * h"
proof -
  have "a + h - 1 = ((a + h - 1) div h) * h + (a + h - 1) mod h" by simp
  moreover have "(a + h - 1) mod h < h" using assms by simp
  ultimately show ?thesis by linarith
qed

lemma round_up_u32_ge:
  assumes "h \<noteq> 0" "unat a + unat h \<le> 2 ^ 32"
  shows "(a :: u32) \<le> ((a + h - 1) div h) * h"
proof -
  have hp: "0 < unat h" using assms(1) by (simp add: unat_gt_0)
  then have "unat a + unat h - 1 < 2 ^ 32" using assms(2) by simp
  then have "unat (a + h - 1) = unat a + unat h - 1"
    using unat_add_sub_one_u32 [OF assms(1), of a] by simp
  then have "unat (((a + h - 1) div h) * h) = ((unat a + unat h - 1) div unat h) * unat h"
    using unat_round_up_u32 [OF assms(1), of a] by simp
  with nat_round_up_ge [OF hp, of "unat a"] show ?thesis
    by (simp add: word_le_nat_alt)
qed

lemma round_up_u32_dvd:
  assumes "h \<noteq> 0"
  shows "unat h dvd unat ((((a :: u32) + h - 1) div h) * h)"
  by (simp add: unat_round_up_u32 [OF assms])

text \<open>
  C8 (amended). For every buffer size \<open>B\<close> and hugepage size \<open>H\<close>: if \<open>H > 0\<close> then
  \<^verbatim>\<open>data_segment_size(B, H)\<close> is a multiple of \<open>H\<close>, and it is at least \<open>B\<close> whenever
  \<open>B + H - 1\<close> fits in 32 bits; if \<open>H = 0\<close> it equals \<open>B\<close>.
\<close>

theorem data_segment_size_aligned_up:
  "(H \<noteq> 0 \<longrightarrow>
      unat H dvd unat (data_segment_size B H) \<and>
      (unat B + unat H - 1 < 2 ^ 32 \<longrightarrow> B \<le> data_segment_size B H)) \<and>
   data_segment_size B 0 = B"
proof (intro conjI impI)
  assume "H \<noteq> 0"
  then show "unat H dvd unat (data_segment_size B H)"
    by (simp add: data_segment_size_def round_up_u32_dvd)
next
  assume h: "H \<noteq> 0" and b: "unat B + unat H - 1 < 2 ^ 32"
  from h have "0 < unat H" by (simp add: unat_gt_0)
  with b have "unat B + unat H \<le> 2 ^ 32" by simp
  with h show "B \<le> data_segment_size B H"
    by (simp add: data_segment_size_def round_up_u32_ge)
next
  show "data_segment_size B 0 = B" by (simp add: data_segment_size_def)
qed

theorem data_segment_size_aligned_up_witness:
  "(0x200000 :: u32) \<noteq> 0 \<and> unat (1000 :: u32) + unat (0x200000 :: u32) - 1 < 2 ^ 32 \<and>
   unat (0x200000 :: u32) dvd unat (data_segment_size 1000 0x200000) \<and>
   1000 \<le> data_segment_size 1000 0x200000"
  using data_segment_size_aligned_up [of "0x200000" 1000] by simp

text \<open>
  The claim without the bound fails: with \<open>B = 2 ^ 32 - 1\<close> and the 2 MB hugepage size the sum
  \<^verbatim>\<open>buffer_size + hugepage_size - 1\<close> wraps around and the result is 0.
\<close>

theorem data_segment_size_overflow_counterexample:
  "(0x200000 :: u32) \<noteq> 0 \<and> data_segment_size 0xFFFFFFFF 0x200000 = 0 \<and>
   \<not> (0xFFFFFFFF :: u32) \<le> data_segment_size 0xFFFFFFFF 0x200000"
  by (simp add: data_segment_size_def)

section \<open>Header segment size\<close>

text \<open>
  The 64-bit sum of \<^verbatim>\<open>raw_header_size\<close>, converted to 32 bits, is the sum taken in 32 bits.
\<close>

lemma raw_header_size_u32:
  "raw_header_size cl mc ps cs = ucast (CACHE_LINE cl) + ps + ucast mc * cs"
  by (simp add: raw_header_size_def ucast_down_add ucast_up_down)

lemma PAGE_SIZE_neq_0: "PAGE_SIZE \<noteq> 0"
  by (simp add: PAGE_SIZE_def)

lemma header_segment_size_dvd_page:
  "unat PAGE_SIZE dvd unat (header_segment_size cl mc ps cs)"
  unfolding header_segment_size_def Let_def
  by (rule round_up_u32_dvd [OF PAGE_SIZE_neq_0])

lemma header_segment_size_ge_raw:
  assumes "unat (raw_header_size cl mc ps cs) \<le> 2 ^ 32 - 4096"
  shows "raw_header_size cl mc ps cs \<le> header_segment_size cl mc ps cs"
proof -
  from assms have "unat (raw_header_size cl mc ps cs) + unat PAGE_SIZE \<le> 2 ^ 32"
    by (simp add: PAGE_SIZE_def)
  then show ?thesis
    unfolding header_segment_size_def Let_def
    by (rule round_up_u32_ge [OF PAGE_SIZE_neq_0])
qed

text \<open>
  C7 (amended). For every \<^verbatim>\<open>max_consumers\<close>, \<^verbatim>\<open>producer_section_size\<close> and
  \<^verbatim>\<open>consumer_section_size\<close>, the result of \<^verbatim>\<open>header_segment_size\<close> is a multiple of the page
  size 4096; it is at least \<^verbatim>\<open>raw_header_size\<close> of the same arguments whenever that value is
  at most \<open>2 ^ 32 - 4096\<close>.
\<close>

theorem header_segment_size_page_aligned:
  "4096 dvd unat (header_segment_size cl mc ps cs) \<and>
   (unat (raw_header_size cl mc ps cs) \<le> 2 ^ 32 - 4096 \<longrightarrow>
      raw_header_size cl mc ps cs \<le> header_segment_size cl mc ps cs)"
proof (intro conjI impI)
  show "4096 dvd unat (header_segment_size cl mc ps cs)"
    using header_segment_size_dvd_page [of cl mc ps cs] by (simp add: PAGE_SIZE_def)
next
  assume "unat (raw_header_size cl mc ps cs) \<le> 2 ^ 32 - 4096"
  then show "raw_header_size cl mc ps cs \<le> header_segment_size cl mc ps cs"
    by (rule header_segment_size_ge_raw)
qed

theorem header_segment_size_page_aligned_witness:
  "unat (raw_header_size Line64 4 128 128) \<le> 2 ^ 32 - 4096 \<and>
   raw_header_size Line64 4 128 128 = 704 \<and>
   header_segment_size Line64 4 128 128 = 4096"
  using header_segment_size_page_aligned [of Line64 4 128 128]
  by (simp add: raw_header_size_u32 header_segment_size_def PAGE_SIZE_def)

text \<open>
  The claim without the bound fails: a raw size of \<^verbatim>\<open>0xFFFFF040\<close> makes
  \<^verbatim>\<open>raw + PAGE_SIZE - 1\<close> wrap around and the result is 0.
\<close>

theorem header_segment_size_overflow_counterexample:
  "raw_header_size Line64 0 0xFFFFF000 0 = 0xFFFFF040 \<and>
   header_segment_size Line64 0 0xFFFFF000 0 = 0 \<and>
   \<not> raw_header_size Line64 0 0xFFFFF000 0 \<le> header_segment_size Line64 0 0xFFFFF000 0"
  by (simp add: raw_header_size_u32 header_segment_size_def PAGE_SIZE_def)

section \<open>What \<^verbatim>\<open>metadata_init\<close> returns\<close>

lemma unat_u8_less: "unat (a :: u8) < 256"
  using unsigned_less [of a, where 'a = nat] by simp

lemma unat_u16_less: "unat (a :: u16) < 65536"
  using unsigned_less [of a, where 'a = nat] by simp

lemma unat_ucast_u8_u32: "unat (ucast (a :: u8) :: u32) = unat a"
  using unat_u8_less [of a] by (simp add: unsigned_ucast_eq take_bit_eq_mod)

lemma unat_ucast_u16_u32: "unat (ucast (a :: u16) :: u32) = unat a"
  using unat_u16_less [of a] by (simp add: unsigned_ucast_eq take_bit_eq_mod)

lemma u32_eq_two_power:
  assumes "unat (x :: u32) = 2 ^ k"
  shows "k < 32" and "x = 2 ^ k"
proof -
  have "unat x < 2 ^ LENGTH(32)" by (rule unsigned_less)
  with assms have "(2::nat) ^ k < 2 ^ 32" by simp
  then show k: "k < 32" by (rule power_less_imp_less_exp [of 2, rotated]) simp
  then have "unat x = unat ((2 :: u32) ^ k)"
    using assms by (simp add: unat_two_power_u32)
  then show "x = 2 ^ k" by (simp only: word_unat_eq_iff)
qed

lemma size_to_log2_of_power:
  assumes "unat (x :: u32) = 2 ^ k"
  shows "size_to_log2 x = Inr (of_nat k)" and "unat (of_nat k :: u8) = k"
proof -
  note K = u32_eq_two_power [OF assms]
  from K(1) have "k \<le> 31" by simp
  then show "size_to_log2 x = Inr (of_nat k)" "unat (of_nat k :: u8) = k"
    using K(2) by (simp_all add: size_to_log2_pow2 unat_u8_of_nat_small)
qed

lemma size_to_log2_defined:
  assumes "unat x \<le> 2 ^ 31"
  shows "\<exists>e. size_to_log2 x = Inr e"
  using size_to_log2_least [OF assms] by blast

lemma size_to_log2_u16_defined: "\<exists>e. size_to_log2 (ucast (es :: u16)) = Inr e"
proof (rule size_to_log2_defined)
  show "unat (ucast es :: u32) \<le> 2 ^ 31"
    using unat_u16_less [of es] by (simp add: unat_ucast_u16_u32)
qed

lemma metadata_init_result:
  assumes "(if es \<noteq> 0 then size_to_log2 (ucast es) else Inr 0) = Inr esl"
    and "size_to_log2 bs = Inr bsl"
    and "size_to_log2 hs = Inr hsl"
  shows "metadata_init cl m mc es bs po c0 hs =
           Inr \<lparr>magic = METADATA_MAGIC, version = METADATA_VERSION, max_consumers = mc,
                event_size = es, producer_pid = 0, buffer_size = bs, producer_offset = po,
                consumer_0_offset = c0, header_size = hs, index_mask = bs - 1,
                event_size_log2 = esl, buffer_size_log2 = bsl, header_size_log2 = hsl,
                padding = replicate (padding_length cl) 0\<rparr>"
  using assms by (simp add: metadata_init_def)

lemma metadata_init_defined:
  assumes "unat bs \<le> 2 ^ 31" and "unat hs \<le> 2 ^ 31"
  shows "\<exists>esl bsl hsl.
           (if es \<noteq> 0 then size_to_log2 (ucast (es :: u16)) else Inr 0) = Inr esl \<and>
           size_to_log2 bs = Inr bsl \<and> size_to_log2 hs = Inr hsl"
  using size_to_log2_defined [OF assms(1)] size_to_log2_defined [OF assms(2)]
    size_to_log2_u16_defined [of es]
  by auto

lemma metadata_init_InrD:
  assumes "metadata_init cl m mc es bs po c0 hs = Inr r"
  shows "\<exists>esl bsl hsl.
           (if es \<noteq> 0 then size_to_log2 (ucast es) else Inr 0) = Inr esl \<and>
           size_to_log2 bs = Inr bsl \<and> size_to_log2 hs = Inr hsl \<and>
           r = \<lparr>magic = METADATA_MAGIC, version = METADATA_VERSION, max_consumers = mc,
                event_size = es, producer_pid = 0, buffer_size = bs, producer_offset = po,
                consumer_0_offset = c0, header_size = hs, index_mask = bs - 1,
                event_size_log2 = esl, buffer_size_log2 = bsl, header_size_log2 = hsl,
                padding = replicate (padding_length cl) 0\<rparr>"
  using assms by (auto simp: metadata_init_def split: sum.splits if_splits)

text \<open>
  What the round trip gives for any \<^verbatim>\<open>header_size\<close> up to \<open>2 ^ 31\<close>: when \<^verbatim>\<open>buffer_size\<close>
  is a power of two and \<^verbatim>\<open>event_size\<close> is zero or a power of two, \<^verbatim>\<open>metadata_init\<close> completes,
  \<^verbatim>\<open>metadata_validate\<close> is true, and every derived field is the base-2 logarithm of its
  size, except that \<^verbatim>\<open>header_size_log2\<close> is the least exponent \<open>e\<close> with
  \<^verbatim>\<open>header_size\<close> at most \<open>2 ^ e\<close>: the logarithm only when \<^verbatim>\<open>header_size\<close> is a power of two.
\<close>

lemma metadata_init_round_trip_up_to_header_log2:
  assumes "unat bs = 2 ^ kb"
    and "es = 0 \<or> unat es = 2 ^ ke"
    and "unat hs \<le> 2 ^ 31"
  shows "\<exists>r. metadata_init cl m mc es bs po c0 hs = Inr r \<and>
           metadata_validate r \<and>
           index_mask r = bs - 1 \<and>
           unat bs = 2 ^ unat (buffer_size_log2 r) \<and>
           (es \<noteq> 0 \<longrightarrow> unat es = 2 ^ unat (event_size_log2 r)) \<and>
           (es = 0 \<longrightarrow> event_size_log2 r = 0) \<and>
           producer_pid r = 0 \<and>
           length (padding r) = padding_length cl \<and>
           (\<forall>b\<in>set (padding r). b = 0) \<and>
           unat (header_size_log2 r) = (LEAST n. unat hs \<le> 2 ^ n) \<and>
           (unat hs = 2 ^ kh \<longrightarrow> unat hs = 2 ^ unat (header_size_log2 r))"
proof -
  define bsl :: u8 where "bsl = of_nat kb"
  have B: "size_to_log2 bs = Inr bsl" and B': "unat bs = 2 ^ unat bsl"
    using size_to_log2_of_power [OF assms(1)] assms(1) by (simp_all add: bsl_def)
  let ?L = "LEAST n. unat hs \<le> 2 ^ n"
  define hsl :: u8 where "hsl = of_nat ?L"
  have H: "size_to_log2 hs = Inr hsl"
    unfolding hsl_def by (rule size_to_log2_least [OF assms(3)])
  have HL: "unat hsl = ?L"
    unfolding hsl_def using least_exp_props(1) [OF assms(3)] by (rule unat_u8_of_nat_small)
  have HP: "unat hs = 2 ^ kh \<longrightarrow> unat hs = 2 ^ unat hsl"
  proof
    assume p: "unat hs = 2 ^ kh"
    from size_to_log2_of_power(1) [OF p] H have "hsl = of_nat kh" by simp
    with size_to_log2_of_power(2) [OF p] have "unat hsl = kh" by simp
    with p show "unat hs = 2 ^ unat hsl" by simp
  qed
  define esl :: u8 where "esl = (if es = 0 then 0 else of_nat ke)"
  have E: "(if es \<noteq> 0 then size_to_log2 (ucast es) else Inr 0) = Inr esl"
  proof (cases "es = 0")
    case True
    then show ?thesis by (simp add: esl_def)
  next
    case False
    with assms(2) have "unat (ucast es :: u32) = 2 ^ ke"
      by (simp add: unat_ucast_u16_u32)
    from size_to_log2_of_power(1) [OF this] False show ?thesis
      by (simp add: esl_def)
  qed
  have E': "es \<noteq> 0 \<longrightarrow> unat es = 2 ^ unat esl"
  proof
    assume nz: "es \<noteq> 0"
    with assms(2) have e: "unat es = 2 ^ ke" by simp
    then have "unat (ucast es :: u32) = 2 ^ ke" by (simp add: unat_ucast_u16_u32)
    from size_to_log2_of_power(2) [OF this] nz e show "unat es = 2 ^ unat esl"
      by (simp add: esl_def)
  qed
  have E0: "es = 0 \<longrightarrow> esl = 0" by (simp add: esl_def)
  note R = metadata_init_result [OF E B H, of cl m mc po c0]
  show ?thesis
    unfolding R using E' E0 B' HL HP
    by (simp add: metadata_validate_def)
qed

text \<open>
  C1. Round trip of the metadata codec: \<^verbatim>\<open>metadata_init\<close> followed by \<^verbatim>\<open>metadata_validate\<close>
  returns true and each derived field is the base-2 logarithm of its size. The code breaks
  this for \<^verbatim>\<open>header_size_log2\<close>. On the default layout for 63 consumers with 64-byte cache
  lines, \<^verbatim>\<open>header_segment_size\<close> is three pages, 12288 bytes; \<^verbatim>\<open>buffer_size = 1024\<close> and
  \<^verbatim>\<open>event_size = 64\<close> are powers of two. \<^verbatim>\<open>metadata_init\<close> completes, \<^verbatim>\<open>metadata_validate\<close> is
  true and the other fields are as stated, but \<^verbatim>\<open>header_size_log2\<close> is stored as 14, and
  \<^verbatim>\<open>log2_to_size(14)\<close> is 16384, not 12288. The field is documented in the source as
  \<^verbatim>\<open>log2(header_size) for shift ops\<close> and \<^verbatim>\<open>size_to_log2\<close> as \<^verbatim>\<open>size must be power of 2\<close>,
  while \<^verbatim>\<open>header_size\<close> is only page-aligned.
\<close>

theorem metadata_init_header_size_log2_three_pages:
  "header_segment_size Line64 63 (DEFAULT_PRODUCER_SECTION_SIZE Line64)
     (DEFAULT_CONSUMER_SECTION_SIZE Line64) = 12288 \<and>
   metadata_init Line64 (zero_filled Line64) 63 64 1024 (default_producer_offset Line64)
     (default_consumer_0_offset Line64 (DEFAULT_PRODUCER_SECTION_SIZE Line64))
     (header_segment_size Line64 63 (DEFAULT_PRODUCER_SECTION_SIZE Line64)
        (DEFAULT_CONSUMER_SECTION_SIZE Line64)) =
     Inr \<lparr>magic = METADATA_MAGIC, version = METADATA_VERSION, max_consumers = 63,
          event_size = 64, producer_pid = 0, buffer_size = 1024, producer_offset = 64,
          consumer_0_offset = 192, header_size = 12288, index_mask = 1023,
          event_size_log2 = 6, buffer_size_log2 = 10, header_size_log2 = 14,
          padding = replicate 25 0\<rparr> \<and>
   metadata_validate \<lparr>magic = METADATA_MAGIC, version = METADATA_VERSION, max_consumers = 63,
          event_size = 64, producer_pid = 0, buffer_size = 1024, producer_offset = 64,
          consumer_0_offset = 192, header_size = 12288, index_mask = 1023,
          event_size_log2 = 6, buffer_size_log2 = 10, header_size_log2 = 14,
          padding = replicate 25 0\<rparr> \<and>
   is_power_of_2 1024 \<and> is_power_of_2 64 \<and> \<not> is_power_of_2 12288 \<and>
   log2_to_size 14 = Inr 16384 \<and> (16384 :: u32) \<noteq> 12288"
  by (simp add: metadata_init_def size_to_log2_def size_to_log2_loop.simps
      header_segment_size_def raw_header_size_def DEFAULT_PRODUCER_SECTION_SIZE_def
      DEFAULT_CONSUMER_SECTION_SIZE_def default_producer_offset_def
      default_consumer_0_offset_def PAGE_SIZE_def padding_length_def METADATA_FIXED_SIZE_def
      is_power_of_2_def metadata_validate_def log2_to_size_def)

text \<open>
  C3 (amended). \<^verbatim>\<open>metadata_init\<close> does not check its arguments and has no invalid-argument
  result: for every \<^verbatim>\<open>buffer_size\<close> and \<^verbatim>\<open>header_size\<close> up to \<open>2 ^ 31\<close> and every
  \<^verbatim>\<open>event_size\<close>, power of two or not, it completes and stores \<^verbatim>\<open>buffer_size\<close> and
  \<^verbatim>\<open>event_size\<close> as given, with \<^verbatim>\<open>index_mask = buffer_size - 1\<close>. The separate check
  \<^verbatim>\<open>validate_sizes\<close> is true on the stored record exactly when \<^verbatim>\<open>buffer_size\<close> is a power
  of two.
\<close>

theorem metadata_init_has_no_argument_check:
  assumes "unat bs \<le> 2 ^ 31" and "unat hs \<le> 2 ^ 31"
  shows "\<exists>r. metadata_init cl m mc es bs po c0 hs = Inr r \<and>
           buffer_size r = bs \<and> event_size r = es \<and> index_mask r = bs - 1 \<and>
           (validate_sizes r \<longleftrightarrow> (\<exists>k. unat bs = 2 ^ k))"
proof -
  from metadata_init_defined [OF assms, of es] obtain esl bsl hsl
    where "(if es \<noteq> 0 then size_to_log2 (ucast es) else Inr 0) = Inr esl"
      and "size_to_log2 bs = Inr bsl" and "size_to_log2 hs = Inr hsl"
    by blast
  note R = metadata_init_result [OF this, of cl m mc po c0]
  show ?thesis
    unfolding R by (simp add: validate_sizes_def is_power_of_2_unat)
qed

theorem metadata_init_has_no_argument_check_witness:
  "unat (3 :: u32) \<le> 2 ^ 31 \<and> unat (4096 :: u32) \<le> 2 ^ 31 \<and>
   (\<exists>r. metadata_init Line64 (zero_filled Line64) 4 3 3 64 192 4096 = Inr r \<and>
        buffer_size r = 3 \<and> event_size r = 3 \<and> index_mask r = 2 \<and> \<not> validate_sizes r)"
proof -
  have h1: "unat (3 :: u32) \<le> 2 ^ 31" and h2: "unat (4096 :: u32) \<le> 2 ^ 31" by simp_all
  have n: "\<not> (\<exists>k. unat (3 :: u32) = 2 ^ k)"
    using is_power_of_2_unat [of 3] by (simp add: is_power_of_2_def)
  from metadata_init_has_no_argument_check [OF h1 h2, of Line64 "zero_filled Line64" 4 3 64 192] n
  show ?thesis using h1 h2 by auto
qed

text \<open>
  The claim as stated fails: with \<^verbatim>\<open>buffer_size = 3\<close> and \<^verbatim>\<open>event_size = 3\<close> the call
  completes and leaves a record.
\<close>

theorem metadata_init_accepts_non_power_of_two_counterexample:
  "\<not> is_power_of_2 3 \<and>
   metadata_init Line64 (zero_filled Line64) 4 3 3 64 192 4096 =
     Inr \<lparr>magic = METADATA_MAGIC, version = METADATA_VERSION, max_consumers = 4,
          event_size = 3, producer_pid = 0, buffer_size = 3, producer_offset = 64,
          consumer_0_offset = 192, header_size = 4096, index_mask = 2,
          event_size_log2 = 2, buffer_size_log2 = 2, header_size_log2 = 12,
          padding = replicate 25 0\<rparr>"
  by (simp add: metadata_init_def size_to_log2_def size_to_log2_loop.simps
      padding_length_def METADATA_FIXED_SIZE_def is_power_of_2_def)

lemma unat_push_bit_u32:
  assumes "k < 32" and "unat i * 2 ^ k < 2 ^ 32"
  shows "unat (push_bit k (i :: u32)) = unat i * 2 ^ k"
proof -
  have "unat i * unat ((2 :: u32) ^ k) < 2 ^ LENGTH(32)"
    using assms by (simp add: unat_two_power_u32)
  then have "unat (i * 2 ^ k) = unat i * unat ((2 :: u32) ^ k)"
    by (simp only: unat_mult_lem)
  then show ?thesis using assms(1) by (simp add: push_bit_eq_mult unat_two_power_u32)
qed


text \<open>
  C4 (amended). For every metadata record produced by \<^verbatim>\<open>metadata_init\<close> and every index:
  when \<^verbatim>\<open>event_size\<close> is 0, \<^verbatim>\<open>event_offset(meta, index)\<close> is the index itself; when
  \<^verbatim>\<open>event_size\<close> is a power of two and the exact product \<open>index * event_size\<close> is below
  \<open>2 ^ 32\<close>, \<^verbatim>\<open>event_offset(meta, index)\<close> is that product.
\<close>

theorem event_offset_after_init:
  assumes "metadata_init cl m mc es bs po c0 hs = Inr r"
  shows "(es = 0 \<longrightarrow> event_offset r i = Inr i) \<and>
         (unat es = 2 ^ k \<and> unat i * unat es < 2 ^ 32 \<longrightarrow>
            (\<exists>v. event_offset r i = Inr v \<and> unat v = unat i * unat es))"
proof (intro conjI impI)
  assume "es = 0"
  with metadata_init_InrD [OF assms] show "event_offset r i = Inr i"
    by (auto simp: event_offset_def)
next
  assume a: "unat es = 2 ^ k \<and> unat i * unat es < 2 ^ 32"
  then have e: "unat es = 2 ^ k" by (rule conjunct1)
  from a have "unat i * unat es < 2 ^ 32" by (rule conjunct2)
  then have b: "unat i * 2 ^ k < 2 ^ 32" by (simp only: e)
  from e have nz: "es \<noteq> 0" by auto
  from e have u: "unat (ucast es :: u32) = 2 ^ k" by (simp add: unat_ucast_u16_u32)
  note K = u32_eq_two_power(1) [OF u]
  note S = size_to_log2_of_power [OF u]
  from metadata_init_InrD [OF assms] nz S(1) have "event_size_log2 r = of_nat k"
    by auto
  with S(2) K have "event_offset r i = Inr (push_bit k i)"
    by (simp add: event_offset_def)
  moreover have "unat (push_bit k i) = unat i * unat es"
    using unat_push_bit_u32 [OF K b] e by simp
  ultimately show "\<exists>v. event_offset r i = Inr v \<and> unat v = unat i * unat es"
    by blast
qed

theorem event_offset_after_init_witness:
  "unat (64 :: u16) = 2 ^ 6 \<and> unat (5 :: u32) * unat (64 :: u16) < 2 ^ 32 \<and>
   metadata_init Line64 (zero_filled Line64) 4 64 1024 64 192 4096 =
     Inr \<lparr>magic = METADATA_MAGIC, version = METADATA_VERSION, max_consumers = 4,
          event_size = 64, producer_pid = 0, buffer_size = 1024, producer_offset = 64,
          consumer_0_offset = 192, header_size = 4096, index_mask = 1023,
          event_size_log2 = 6, buffer_size_log2 = 10, header_size_log2 = 12,
          padding = replicate 25 0\<rparr> \<and>
   event_offset \<lparr>magic = METADATA_MAGIC, version = METADATA_VERSION, max_consumers = 4,
          event_size = 64, producer_pid = 0, buffer_size = 1024, producer_offset = 64,
          consumer_0_offset = 192, header_size = 4096, index_mask = 1023,
          event_size_log2 = 6, buffer_size_log2 = 10, header_size_log2 = 12,
          padding = replicate 25 0\<rparr> 5 = Inr 320 \<and>
   metadata_init Line128 (zero_filled Line128) 2 0 4096 128 384 4096 =
     Inr \<lparr>magic = METADATA_MAGIC, version = METADATA_VERSION, max_consumers = 2,
          event_size = 0, producer_pid = 0, buffer_size = 4096, producer_offset = 128,
          consumer_0_offset = 384, header_size = 4096, index_mask = 4095,
          event_size_log2 = 0, buffer_size_log2 = 12, header_size_log2 = 12,
          padding = replicate 89 0\<rparr> \<and>
   event_offset \<lparr>magic = METADATA_MAGIC, version = METADATA_VERSION, max_consumers = 2,
          event_size = 0, producer_pid = 0, buffer_size = 4096, producer_offset = 128,
          consumer_0_offset = 384, header_size = 4096, index_mask = 4095,
          event_size_log2 = 0, buffer_size_log2 = 12, header_size_log2 = 12,
          padding = replicate 89 0\<rparr> 7 = Inr 7"
proof -
  let ?R = "\<lparr>magic = METADATA_MAGIC, version = METADATA_VERSION, max_consumers = 4,
          event_size = 64, producer_pid = 0, buffer_size = 1024, producer_offset = 64,
          consumer_0_offset = 192, header_size = 4096, index_mask = 1023,
          event_size_log2 = 6, buffer_size_log2 = 10, header_size_log2 = 12,
          padding = replicate 25 0\<rparr>"
  let ?V = "\<lparr>magic = METADATA_MAGIC, version = METADATA_VERSION, max_consumers = 2,
          event_size = 0, producer_pid = 0, buffer_size = 4096, producer_offset = 128,
          consumer_0_offset = 384, header_size = 4096, index_mask = 4095,
          event_size_log2 = 0, buffer_size_log2 = 12, header_size_log2 = 12,
          padding = replicate 89 0\<rparr>"
  have i: "metadata_init Line64 (zero_filled Line64) 4 64 1024 64 192 4096 = Inr ?R"
    by (simp add: metadata_init_def size_to_log2_def size_to_log2_loop.simps
        padding_length_def METADATA_FIXED_SIZE_def)
  have j: "metadata_init Line128 (zero_filled Line128) 2 0 4096 128 384 4096 = Inr ?V"
    by (simp add: metadata_init_def size_to_log2_def size_to_log2_loop.simps
        padding_length_def METADATA_FIXED_SIZE_def)
  have h: "unat (64 :: u16) = 2 ^ 6 \<and> unat (5 :: u32) * unat (64 :: u16) < 2 ^ 32" by simp
  from event_offset_after_init [OF i, of 5 6] h
  obtain v where v: "event_offset ?R 5 = Inr v" "unat v = unat (5 :: u32) * unat (64 :: u16)"
    by blast
  from v(2) have "unat v = unat (320 :: u32)" by simp
  then have "v = 320" by (simp only: word_unat_eq_iff)
  moreover have "event_offset ?V 7 = Inr 7"
    using event_offset_after_init [OF j, of 7 0] by simp
  ultimately show ?thesis using v(1) i j h by simp
qed

text \<open>
  The claim as stated fails for variable-size records: with \<^verbatim>\<open>event_size = 0\<close> the stored
  shift is 0 and the offset of index 1 is 1, while \<open>1 * 0 = 0\<close>.
\<close>

theorem event_offset_variable_size_counterexample:
  "metadata_init Line64 (zero_filled Line64) 4 0 1024 64 192 4096 =
     Inr \<lparr>magic = METADATA_MAGIC, version = METADATA_VERSION, max_consumers = 4,
          event_size = 0, producer_pid = 0, buffer_size = 1024, producer_offset = 64,
          consumer_0_offset = 192, header_size = 4096, index_mask = 1023,
          event_size_log2 = 0, buffer_size_log2 = 10, header_size_log2 = 12,
          padding = replicate 25 0\<rparr> \<and>
   (1 :: u32) < 1024 \<and>
   event_offset \<lparr>magic = METADATA_MAGIC, version = METADATA_VERSION, max_consumers = 4,
          event_size = 0, producer_pid = 0, buffer_size = 1024, producer_offset = 64,
          consumer_0_offset = 192, header_size = 4096, index_mask = 1023,
          event_size_log2 = 0, buffer_size_log2 = 10, header_size_log2 = 12,
          padding = replicate 25 0\<rparr> 1 = Inr 1 \<and>
   unat (1 :: u32) * unat (0 :: u16) \<noteq> unat (1 :: u32)"
  by (simp add: metadata_init_def size_to_log2_def size_to_log2_loop.simps
      padding_length_def METADATA_FIXED_SIZE_def event_offset_def)

section \<open>The default layout\<close>

lemma default_offsets:
  "default_producer_offset cl = ucast (CACHE_LINE cl)"
  "default_consumer_0_offset cl (DEFAULT_PRODUCER_SECTION_SIZE cl) = 3 * ucast (CACHE_LINE cl)"
  by (cases cl; simp add: default_producer_offset_def default_consumer_0_offset_def
      DEFAULT_PRODUCER_SECTION_SIZE_def)+

lemma default_raw_header_size:
  "raw_header_size cl mc (DEFAULT_PRODUCER_SECTION_SIZE cl) (DEFAULT_CONSUMER_SECTION_SIZE cl) =
     3 * ucast (CACHE_LINE cl) + ucast mc * (2 * ucast (CACHE_LINE cl))"
  by (cases cl; simp add: raw_header_size_u32 DEFAULT_PRODUCER_SECTION_SIZE_def
      DEFAULT_CONSUMER_SECTION_SIZE_def)

lemma unat_mult_u8_const:
  assumes "c \<le> 256"
  shows "unat ((ucast (mc :: u8) :: u32) * of_nat c) = unat mc * c"
proof -
  have c: "unat (of_nat c :: u32) = c" using assms by (simp add: unat_of_nat)
  have "unat mc * c \<le> 255 * 256"
    using unat_u8_less [of mc] assms by (intro mult_mono) auto
  then have "unat (ucast mc :: u32) * unat (of_nat c :: u32) < 2 ^ LENGTH(32)"
    by (simp add: unat_ucast_u8_u32 c)
  then have "unat ((ucast mc :: u32) * of_nat c) = unat (ucast mc :: u32) * unat (of_nat c :: u32)"
    by (simp only: unat_mult_lem)
  then show ?thesis by (simp add: unat_ucast_u8_u32 c)
qed

lemma unat_default_raw_header_size:
  "unat (raw_header_size cl mc (DEFAULT_PRODUCER_SECTION_SIZE cl)
           (DEFAULT_CONSUMER_SECTION_SIZE cl)) =
     3 * unat (CACHE_LINE cl) + unat mc * (2 * unat (CACHE_LINE cl))"
proof (cases cl)
  case Line64
  have m: "unat ((ucast mc :: u32) * 128) = unat mc * 128"
    using unat_mult_u8_const [of 128 mc] by simp
  have "unat (192 :: u32) + unat ((ucast mc :: u32) * 128) < 2 ^ LENGTH(32)"
    using unat_u8_less [of mc] by (simp add: m)
  then have "unat (192 + (ucast mc :: u32) * 128) = unat (192 :: u32) + unat ((ucast mc :: u32) * 128)"
    by (simp only: unat_add_lem)
  with m Line64 show ?thesis by (simp add: default_raw_header_size)
next
  case Line128
  have m: "unat ((ucast mc :: u32) * 256) = unat mc * 256"
    using unat_mult_u8_const [of 256 mc] by simp
  have "unat (384 :: u32) + unat ((ucast mc :: u32) * 256) < 2 ^ LENGTH(32)"
    using unat_u8_less [of mc] by (simp add: m)
  then have "unat (384 + (ucast mc :: u32) * 256) = unat (384 :: u32) + unat ((ucast mc :: u32) * 256)"
    by (simp only: unat_add_lem)
  with m Line128 show ?thesis by (simp add: default_raw_header_size)
qed

lemma unat_CACHE_LINE_cases: "unat (CACHE_LINE cl) = 64 \<or> unat (CACHE_LINE cl) = 128"
  by (cases cl) simp_all

lemma unat_default_raw_header_size_le:
  "unat (raw_header_size cl mc (DEFAULT_PRODUCER_SECTION_SIZE cl)
           (DEFAULT_CONSUMER_SECTION_SIZE cl)) \<le> 65664"
proof -
  have "unat mc * (2 * unat (CACHE_LINE cl)) \<le> 255 * 256"
    using unat_u8_less [of mc] unat_CACHE_LINE_cases [of cl] by (intro mult_mono) auto
  moreover have "3 * unat (CACHE_LINE cl) \<le> 384"
    using unat_CACHE_LINE_cases [of cl] by auto
  ultimately have "3 * unat (CACHE_LINE cl) + unat mc * (2 * unat (CACHE_LINE cl)) \<le> 65664"
    by linarith
  then show ?thesis by (simp only: unat_default_raw_header_size)
qed

lemma unat_header_segment_size_le:
  assumes "unat (raw_header_size cl mc ps cs) + 4095 < 2 ^ 32"
  shows "unat (header_segment_size cl mc ps cs) \<le> unat (raw_header_size cl mc ps cs) + 4095"
proof -
  let ?raw = "raw_header_size cl mc ps cs"
  have "unat ?raw + unat PAGE_SIZE - 1 < 2 ^ 32"
    using assms by (simp add: PAGE_SIZE_def)
  then have "unat (?raw + PAGE_SIZE - 1) = unat ?raw + unat PAGE_SIZE - 1"
    using unat_add_sub_one_u32 [OF PAGE_SIZE_neq_0, of ?raw] by simp
  then have "unat (header_segment_size cl mc ps cs) =
               ((unat ?raw + unat PAGE_SIZE - 1) div unat PAGE_SIZE) * unat PAGE_SIZE"
    unfolding header_segment_size_def Let_def
    using unat_round_up_u32 [OF PAGE_SIZE_neq_0, of ?raw] by simp
  also have "\<dots> \<le> unat ?raw + unat PAGE_SIZE - 1"
    by (rule div_times_less_eq_dividend)
  finally show ?thesis by (simp add: PAGE_SIZE_def)
qed

lemma unat_mult_div_u8:
  assumes "mc \<noteq> 0" and "unat ((ucast (mc :: u8) :: u32) * c) = unat mc * n"
  shows "unat (((ucast mc :: u32) * c) div ucast mc) = n"
proof -
  have "0 < unat mc" using assms(1) by (simp add: unat_gt_0)
  then show ?thesis by (simp add: unat_div assms(2) unat_ucast_u8_u32)
qed

lemma default_consumer_section_size:
  assumes "mc \<noteq> 0"
    and "max_consumers r = mc"
    and "consumer_0_offset r = default_consumer_0_offset cl (DEFAULT_PRODUCER_SECTION_SIZE cl)"
  shows "\<exists>css. consumer_section_size cl r = Inr css \<and> unat css = 2 * unat (CACHE_LINE cl)"
proof (cases cl)
  case Line64
  have "consumer_section_size cl r = Inr ((ucast mc * 128) div ucast mc)"
    using assms Line64 by (simp add: consumer_section_size_def default_raw_header_size
        default_offsets)
  moreover have "unat (((ucast mc :: u32) * 128) div ucast mc) = 128"
    using unat_mult_u8_const [of 128 mc] by (intro unat_mult_div_u8 [OF assms(1)]) simp
  ultimately show ?thesis using Line64 by simp
next
  case Line128
  have "consumer_section_size cl r = Inr ((ucast mc * 256) div ucast mc)"
    using assms Line128 by (simp add: consumer_section_size_def default_raw_header_size
        default_offsets)
  moreover have "unat (((ucast mc :: u32) * 256) div ucast mc) = 256"
    using unat_mult_u8_const [of 256 mc] by (intro unat_mult_div_u8 [OF assms(1)]) simp
  ultimately show ?thesis using Line128 by simp
qed

lemma unat_DEFAULT_CONSUMER_SECTION_SIZE:
  "unat (DEFAULT_CONSUMER_SECTION_SIZE cl) = 2 * unat (CACHE_LINE cl)"
  by (cases cl) (simp_all add: DEFAULT_CONSUMER_SECTION_SIZE_def)

text \<open>
  C2. For every \<^verbatim>\<open>max_consumers \<ge> 1\<close> and power-of-two \<^verbatim>\<open>buffer_size\<close>, \<^verbatim>\<open>metadata_init\<close>
  with \<^verbatim>\<open>default_producer_offset()\<close>, \<^verbatim>\<open>default_consumer_0_offset()\<close> and
  \<^verbatim>\<open>header_segment_size(max_consumers)\<close> completes and leaves a record that holds the
  arguments as given, whose magic and version are the format constants, with
  \<^verbatim>\<open>index_mask = buffer_size - 1\<close>, \<^verbatim>\<open>consumer_0_offset > producer_offset > 0\<close>, and
  \<^verbatim>\<open>header_size\<close> a multiple of the page size and at least
  \<^verbatim>\<open>consumer_0_offset + max_consumers * consumer_section_size(meta)\<close>, the sum and product
  taken as exact integers; \<^verbatim>\<open>consumer_section_size(meta)\<close> is the default consumer section
  size.
\<close>

theorem default_layout_init_invariants:
  fixes cl :: cache_line and mc :: u8 and bs :: u32
  defines "po \<equiv> default_producer_offset cl"
    and "c0 \<equiv> default_consumer_0_offset cl (DEFAULT_PRODUCER_SECTION_SIZE cl)"
    and "hs \<equiv> header_segment_size cl mc (DEFAULT_PRODUCER_SECTION_SIZE cl)
                 (DEFAULT_CONSUMER_SECTION_SIZE cl)"
  assumes "mc \<noteq> 0" and "unat bs = 2 ^ k"
  shows "\<exists>r. metadata_init cl m mc es bs po c0 hs = Inr r \<and>
           max_consumers r = mc \<and> event_size r = es \<and> buffer_size r = bs \<and>
           producer_offset r = po \<and> consumer_0_offset r = c0 \<and> header_size r = hs \<and>
           magic r = METADATA_MAGIC \<and> version r = METADATA_VERSION \<and>
           index_mask r = bs - 1 \<and> index_mask r = buffer_size r - 1 \<and>
           0 < po \<and> po < c0 \<and>
           0 < producer_offset r \<and> producer_offset r < consumer_0_offset r \<and>
           unat PAGE_SIZE dvd unat hs \<and> unat PAGE_SIZE dvd unat (header_size r) \<and>
           consumer_section_size cl r = Inr (DEFAULT_CONSUMER_SECTION_SIZE cl) \<and>
           unat c0 + unat mc * unat (DEFAULT_CONSUMER_SECTION_SIZE cl) \<le> unat hs \<and>
           (\<exists>css. consumer_section_size cl r = Inr css \<and>
              unat (consumer_0_offset r) + unat (max_consumers r) * unat css
                \<le> unat (header_size r))"
proof -
  let ?raw = "raw_header_size cl mc (DEFAULT_PRODUCER_SECTION_SIZE cl)
                (DEFAULT_CONSUMER_SECTION_SIZE cl)"
  have raw_le: "unat ?raw \<le> 65664" by (rule unat_default_raw_header_size_le)
  then have "unat ?raw + 4095 < 2 ^ 32" by simp
  from unat_header_segment_size_le [OF this] raw_le have hs_le: "unat hs \<le> 2 ^ 31"
    by (simp add: hs_def)
  from u32_eq_two_power(1) [OF assms(5)] have "k \<le> 31" by simp
  then have "(2::nat) ^ k \<le> 2 ^ 31" by (intro power_increasing) auto
  then have bs_le: "unat bs \<le> 2 ^ 31" by (simp only: assms(5))
  from metadata_init_defined [OF bs_le hs_le, of es] obtain esl bsl hsl
    where "(if es \<noteq> 0 then size_to_log2 (ucast es) else Inr 0) = Inr esl"
      and "size_to_log2 bs = Inr bsl" and "size_to_log2 hs = Inr hsl"
    by blast
  note R = metadata_init_result [OF this, of cl m mc po c0]
  define r where "r = \<lparr>magic = METADATA_MAGIC, version = METADATA_VERSION, max_consumers = mc,
                event_size = es, producer_pid = 0, buffer_size = bs, producer_offset = po,
                consumer_0_offset = c0, header_size = hs, index_mask = bs - 1,
                event_size_log2 = esl, buffer_size_log2 = bsl, header_size_log2 = hsl,
                padding = replicate (padding_length cl) 0\<rparr>"
  have init: "metadata_init cl m mc es bs po c0 hs = Inr r" by (simp only: R r_def)
  have f: "magic r = METADATA_MAGIC" "version r = METADATA_VERSION"
    "index_mask r = bs - 1" "producer_offset r = po" "consumer_0_offset r = c0"
    "header_size r = hs" "max_consumers r = mc" "buffer_size r = bs" "event_size r = es"
    by (simp_all add: r_def)
  have off: "0 < po" "po < c0"
    by (cases cl; simp add: po_def c0_def default_offsets)+
  have page: "unat PAGE_SIZE dvd unat hs"
    unfolding hs_def by (rule header_segment_size_dvd_page)
  from default_consumer_section_size [OF assms(4) f(7), of cl] f(5)
  obtain css where css: "consumer_section_size cl r = Inr css"
    "unat css = 2 * unat (CACHE_LINE cl)"
    by (auto simp: c0_def)
  from css(2) have "unat css = unat (DEFAULT_CONSUMER_SECTION_SIZE cl)"
    by (simp only: unat_DEFAULT_CONSUMER_SECTION_SIZE)
  then have d: "css = DEFAULT_CONSUMER_SECTION_SIZE cl" by (simp only: word_unat_eq_iff)
  have "unat c0 = 3 * unat (CACHE_LINE cl)"
    by (cases cl; simp add: c0_def default_offsets)
  then have "unat c0 + unat mc * unat css = unat ?raw"
    by (simp add: css(2) unat_default_raw_header_size)
  moreover have "?raw \<le> hs"
    unfolding hs_def using raw_le by (intro header_segment_size_ge_raw) simp
  ultimately have cover: "unat c0 + unat mc * unat css \<le> unat hs"
    by (simp add: word_le_nat_alt)
  have c: "consumer_section_size cl r = Inr (DEFAULT_CONSUMER_SECTION_SIZE cl)"
    "unat c0 + unat mc * unat (DEFAULT_CONSUMER_SECTION_SIZE cl) \<le> unat hs"
    using css(1) cover by (simp_all only: d)
  have "metadata_init cl m mc es bs po c0 hs = Inr r \<and>
           max_consumers r = mc \<and> event_size r = es \<and> buffer_size r = bs \<and>
           producer_offset r = po \<and> consumer_0_offset r = c0 \<and> header_size r = hs \<and>
           magic r = METADATA_MAGIC \<and> version r = METADATA_VERSION \<and>
           index_mask r = bs - 1 \<and> index_mask r = buffer_size r - 1 \<and>
           0 < po \<and> po < c0 \<and>
           0 < producer_offset r \<and> producer_offset r < consumer_0_offset r \<and>
           unat PAGE_SIZE dvd unat hs \<and> unat PAGE_SIZE dvd unat (header_size r) \<and>
           consumer_section_size cl r = Inr (DEFAULT_CONSUMER_SECTION_SIZE cl) \<and>
           unat c0 + unat mc * unat (DEFAULT_CONSUMER_SECTION_SIZE cl) \<le> unat hs \<and>
           (\<exists>css. consumer_section_size cl r = Inr css \<and>
              unat (consumer_0_offset r) + unat (max_consumers r) * unat css
                \<le> unat (header_size r))"
    using init f off page c by simp
  then show ?thesis by (rule exI)
qed

theorem default_layout_init_invariants_witness:
  "(255 :: u8) \<noteq> 0 \<and> unat (2048 :: u32) = 2 ^ 11 \<and>
   metadata_init Line64 (zero_filled Line64) 255 64 2048 (default_producer_offset Line64)
     (default_consumer_0_offset Line64 (DEFAULT_PRODUCER_SECTION_SIZE Line64))
     (header_segment_size Line64 255 (DEFAULT_PRODUCER_SECTION_SIZE Line64)
        (DEFAULT_CONSUMER_SECTION_SIZE Line64)) =
     Inr \<lparr>magic = METADATA_MAGIC, version = METADATA_VERSION, max_consumers = 255,
          event_size = 64, producer_pid = 0, buffer_size = 2048, producer_offset = 64,
          consumer_0_offset = 192, header_size = 36864, index_mask = 2047,
          event_size_log2 = 6, buffer_size_log2 = 11, header_size_log2 = 16,
          padding = replicate 25 0\<rparr> \<and>
   consumer_section_size Line64
     \<lparr>magic = METADATA_MAGIC, version = METADATA_VERSION, max_consumers = 255,
      event_size = 64, producer_pid = 0, buffer_size = 2048, producer_offset = 64,
      consumer_0_offset = 192, header_size = 36864, index_mask = 2047,
      event_size_log2 = 6, buffer_size_log2 = 11, header_size_log2 = 16,
      padding = replicate 25 0\<rparr> = Inr 128 \<and>
   (192 :: nat) + 255 * 128 \<le> 36864"
proof -
  have h1: "(255 :: u8) \<noteq> 0" and h2: "unat (2048 :: u32) = 2 ^ 11" by simp_all
  note T = default_layout_init_invariants [OF h1 h2, of Line64 "zero_filled Line64" 64]
  have "metadata_init Line64 (zero_filled Line64) 255 64 2048 (default_producer_offset Line64)
     (default_consumer_0_offset Line64 (DEFAULT_PRODUCER_SECTION_SIZE Line64))
     (header_segment_size Line64 255 (DEFAULT_PRODUCER_SECTION_SIZE Line64)
        (DEFAULT_CONSUMER_SECTION_SIZE Line64)) =
     Inr \<lparr>magic = METADATA_MAGIC, version = METADATA_VERSION, max_consumers = 255,
          event_size = 64, producer_pid = 0, buffer_size = 2048, producer_offset = 64,
          consumer_0_offset = 192, header_size = 36864, index_mask = 2047,
          event_size_log2 = 6, buffer_size_log2 = 11, header_size_log2 = 16,
          padding = replicate 25 0\<rparr>"
    by (simp add: metadata_init_def size_to_log2_def size_to_log2_loop.simps
      header_segment_size_def raw_header_size_def DEFAULT_PRODUCER_SECTION_SIZE_def
      DEFAULT_CONSUMER_SECTION_SIZE_def default_producer_offset_def
      default_consumer_0_offset_def PAGE_SIZE_def padding_length_def METADATA_FIXED_SIZE_def)
  moreover have "consumer_section_size Line64
     \<lparr>magic = METADATA_MAGIC, version = METADATA_VERSION, max_consumers = 255,
      event_size = 64, producer_pid = 0, buffer_size = 2048, producer_offset = 64,
      consumer_0_offset = 192, header_size = 36864, index_mask = 2047,
      event_size_log2 = 6, buffer_size_log2 = 11, header_size_log2 = 16,
      padding = replicate 25 0\<rparr> = Inr 128"
    by (simp add: consumer_section_size_def raw_header_size_def
        DEFAULT_PRODUCER_SECTION_SIZE_def DEFAULT_CONSUMER_SECTION_SIZE_def)
  ultimately show ?thesis using T h1 h2 by simp
qed

end
